theory Spec2Isabelle
  imports Main
begin

section \<open>JavaScript arrays\<close>

text \<open>
  The models keep their sequences in JavaScript arrays and change them with
  \<^verbatim>\<open>push\<close>, \<^verbatim>\<open>indexOf\<close> and \<^verbatim>\<open>splice\<close>. Indices are JavaScript numbers and may be
  negative or past the end, so they are integers here and the out-of-range
  behaviour of each operation is written out.
\<close>

text \<open>\<^verbatim>\<open>xs.indexOf(x)\<close>: the first index holding \<^verbatim>\<open>x\<close> (strict equality), or -1.\<close>

fun indexOf_from :: "'a list \<Rightarrow> 'a \<Rightarrow> int \<Rightarrow> int" where
  "indexOf_from [] x k = - 1"
| "indexOf_from (y # ys) x k = (if y = x then k else indexOf_from ys x (k + 1))"

definition indexOf :: "'a list \<Rightarrow> 'a \<Rightarrow> int" where
  "indexOf xs x = indexOf_from xs x 0"

text \<open>
  \<^verbatim>\<open>xs.splice(start, deleteCount, items...)\<close>: a negative \<^verbatim>\<open>start\<close> counts from the
  end, both \<^verbatim>\<open>start\<close> and \<^verbatim>\<open>deleteCount\<close> are clamped to the array.
\<close>

definition splice :: "'a list \<Rightarrow> int \<Rightarrow> int \<Rightarrow> 'a list \<Rightarrow> 'a list" where
  "splice xs start deleteCount items =
     (let len = int (length xs);
          actualStart = (if start < 0 then max (len + start) 0 else min start len);
          actualDeleteCount = min (max deleteCount 0) (len - actualStart)
      in take (nat actualStart) xs @ items @ drop (nat (actualStart + actualDeleteCount)) xs)"

section \<open>Data model\<close>

text \<open>
  A track is an object of the streaming service, compared by identity. The
  array of tracks can also hold \<^verbatim>\<open>undefined\<close>: \<^verbatim>\<open>moveTrack\<close> reads
  \<^verbatim>\<open>this.tracks[from]\<close> without a range check and inserts what it read.
\<close>

datatype track = Undefined | Track nat

text \<open>\<^verbatim>\<open>xs[i]\<close> on an array of tracks: \<^verbatim>\<open>undefined\<close> outside the array.\<close>

definition at_index :: "track list \<Rightarrow> int \<Rightarrow> track" where
  "at_index xs i = (if 0 \<le> i \<and> i < int (length xs) then xs ! nat i else Undefined)"

text \<open>
  A \<^verbatim>\<open>Playlist\<close> object: its data and its six notification slots. A slot is
  \<^verbatim>\<open>null\<close> or a function; the record keeps whether a function is installed.
\<close>

record playlist =
  title :: string
  description :: string
  tracks :: "track list"
  onTitleChange :: bool
  onDescriptionChange :: bool
  onTracksChange :: bool
  onAddTrack :: bool
  onDeleteTrack :: bool
  onMoveTrack :: bool

text \<open>Playlists are objects too: a reference is the object's identity.\<close>

type_synonym ref = nat

text \<open>
  The inverse operations handed to \<^verbatim>\<open>History.log\<close> are closures over \<^verbatim>\<open>this\<close>
  and the captured arguments; each constructor is one of the seven closures of
  the models file.
\<close>

datatype revert =
    Revert_deletePlaylist ref
  | Revert_addPlaylist ref
  | Revert_setTitle ref string
  | Revert_setDescription ref string
  | Revert_deleteTrack ref track
  | Revert_addTrack ref track
  | Revert_moveTrack ref int int

type_synonym history_record = "string \<times> revert"

text \<open>
  What a notification callback is called with, per slot. The callbacks
  installed in this repository are view methods and \<^verbatim>\<open>Player.stop\<close>: they
  redraw, stop playback or reinstall slots, and never call a mutator or the
  history, so a call is recorded as an event together with the data the callback
  would see at that moment.
\<close>

datatype notification =
    Call_onChange
  | Call_onDeletePlaylist ref
  | Call_onTitleChange string
  | Call_onDescriptionChange string
  | Call_onTracksChange
  | Call_onAddTrack track
  | Call_onDeleteTrack int
  | Call_onMoveTrack int int

type_synonym playlist_data = "string \<times> string \<times> track list"

datatype event =
    Set_notified notification "ref list"
  | Playlist_notified ref notification playlist_data
  | Log_called string revert
  | Saved "playlist_data list"

text \<open>
  The whole model state: the one \<^verbatim>\<open>PlaylistSet\<close> (\<^verbatim>\<open>myPlaylists\<close>), the playlist
  objects, the \<^verbatim>\<open>History\<close> namespace, \<^verbatim>\<open>localStorage.playlists\<close>, and the events
  so far.
\<close>

record world =
  playlists :: "ref list"
  onChange :: bool
  onDeletePlaylist :: bool
  objs :: "ref \<Rightarrow> playlist"
  records :: "history_record list"
  duringUndo :: bool
  localStorage :: "playlist_data list option"
  trace :: "event list"

definition pdata :: "playlist \<Rightarrow> playlist_data" where
  "pdata pl = (title pl, description pl, tracks pl)"

definition emit :: "event \<Rightarrow> world \<Rightarrow> world" where
  "emit e s = s\<lparr>trace := trace s @ [e]\<rparr>"

text \<open>\<^verbatim>\<open>this.slot && this.slot(args)\<close> on the playlist set and on a playlist.\<close>

definition notify_set :: "bool \<Rightarrow> notification \<Rightarrow> world \<Rightarrow> world" where
  "notify_set slot n s = (if slot then emit (Set_notified n (playlists s)) s else s)"

definition notify :: "ref \<Rightarrow> bool \<Rightarrow> notification \<Rightarrow> world \<Rightarrow> world" where
  "notify p slot n s = (if slot then emit (Playlist_notified p n (pdata (objs s p))) s else s)"

definition update_playlist :: "ref \<Rightarrow> (playlist \<Rightarrow> playlist) \<Rightarrow> world \<Rightarrow> world" where
  "update_playlist p f s = s\<lparr>objs := (objs s)(p := f (objs s p))\<rparr>"

section \<open>History\<close>

text \<open>\<^verbatim>\<open>History.log\<close>: pushes the record unless an undo is running.\<close>

definition History_log :: "string \<Rightarrow> revert \<Rightarrow> world \<Rightarrow> world" where
  "History_log d r s =
     (let s1 = emit (Log_called d r) s
      in if \<not> duringUndo s1 then s1\<lparr>records := records s1 @ [(d, r)]\<rparr> else s1)"

section \<open>PlaylistSet and Playlist\<close>

text \<open>\<^verbatim>\<open>PlaylistSet.prototype.save\<close>: the whole set, serialised, overwrites the stored value.\<close>

definition snapshot :: "world \<Rightarrow> playlist_data list" where
  "snapshot s = map (\<lambda>p. pdata (objs s p)) (playlists s)"

definition save :: "world \<Rightarrow> world" where
  "save s =
     (let stored = snapshot s
      in emit (Saved stored) (s\<lparr>localStorage := Some stored\<rparr>))"

definition addPlaylist :: "ref \<Rightarrow> world \<Rightarrow> world" where
  "addPlaylist p s =
     (let s1 = s\<lparr>playlists := playlists s @ [p]\<rparr>;
          s2 = notify_set (onChange s1) Call_onChange s1;
          s3 = History_log ''Add Playlist'' (Revert_deletePlaylist p) s2
      in save s3)"

definition deletePlaylist :: "ref \<Rightarrow> world \<Rightarrow> world" where
  "deletePlaylist p s =
     (let index = indexOf (playlists s) p;
          s1 = s\<lparr>playlists := splice (playlists s) index 1 []\<rparr>;
          s2 = notify_set (onChange s1) Call_onChange s1;
          s3 = notify_set (onDeletePlaylist s2) (Call_onDeletePlaylist p) s2;
          s4 = History_log ''Delete Playlist'' (Revert_addPlaylist p) s3
      in save s4)"

definition setTitle :: "ref \<Rightarrow> string \<Rightarrow> world \<Rightarrow> world" where
  "setTitle p t s =
     (let oldTitle = title (objs s p);
          s1 = update_playlist p (\<lambda>pl. pl\<lparr>title := t\<rparr>) s;
          s2 = notify p (onTitleChange (objs s1 p)) (Call_onTitleChange t) s1;
          s3 = History_log ''Set Description'' (Revert_setTitle p oldTitle) s2
      in save s3)"

definition setDescription :: "ref \<Rightarrow> string \<Rightarrow> world \<Rightarrow> world" where
  "setDescription p d s =
     (let oldDescription = description (objs s p);
          s1 = update_playlist p (\<lambda>pl. pl\<lparr>description := d\<rparr>) s;
          s2 = notify p (onDescriptionChange (objs s1 p)) (Call_onDescriptionChange d) s1;
          s3 = History_log ''Set Description'' (Revert_setDescription p oldDescription) s2
      in save s3)"

definition addTrack :: "ref \<Rightarrow> track \<Rightarrow> world \<Rightarrow> world" where
  "addTrack p t s =
     (let s1 = notify p (onTracksChange (objs s p)) Call_onTracksChange s;
          s2 = update_playlist p (\<lambda>pl. pl\<lparr>tracks := tracks pl @ [t]\<rparr>) s1;
          s3 = notify p (onAddTrack (objs s2 p)) (Call_onAddTrack t) s2;
          s4 = History_log ''Add Track'' (Revert_deleteTrack p t) s3
      in save s4)"

definition deleteTrack :: "ref \<Rightarrow> track \<Rightarrow> world \<Rightarrow> world" where
  "deleteTrack p t s =
     (let s1 = notify p (onTracksChange (objs s p)) Call_onTracksChange s;
          index = indexOf (tracks (objs s1 p)) t;
          s2 = update_playlist p (\<lambda>pl. pl\<lparr>tracks := splice (tracks pl) index 1 []\<rparr>) s1;
          s3 = notify p (onDeleteTrack (objs s2 p)) (Call_onDeleteTrack index) s2;
          s4 = History_log ''Delete Track'' (Revert_addTrack p t) s3
      in save s4)"

definition moveTrack :: "ref \<Rightarrow> int \<Rightarrow> int \<Rightarrow> world \<Rightarrow> world" where
  "moveTrack p from to s =
     (let s1 = notify p (onTracksChange (objs s p)) Call_onTracksChange s
      in if from = to then s1
         else
           (let track = at_index (tracks (objs s1 p)) from;
                s2 = update_playlist p (\<lambda>pl. pl\<lparr>tracks := splice (tracks pl) from 1 []\<rparr>) s1;
                s3 = update_playlist p (\<lambda>pl. pl\<lparr>tracks := splice (tracks pl) to 0 [track]\<rparr>) s2;
                s4 = notify p (onMoveTrack (objs s3 p)) (Call_onMoveTrack from to) s3;
                s5 = History_log ''Move Track'' (Revert_moveTrack p to from) s4
            in save s5))"

text \<open>Calling a logged closure.\<close>

fun call_revert :: "revert \<Rightarrow> world \<Rightarrow> world" where
  "call_revert (Revert_deletePlaylist p) s = deletePlaylist p s"
| "call_revert (Revert_addPlaylist p) s = addPlaylist p s"
| "call_revert (Revert_setTitle p t) s = setTitle p t s"
| "call_revert (Revert_setDescription p d) s = setDescription p d s"
| "call_revert (Revert_deleteTrack p t) s = deleteTrack p t s"
| "call_revert (Revert_addTrack p t) s = addTrack p t s"
| "call_revert (Revert_moveTrack p from to) s = moveTrack p from to s"

text \<open>\<^verbatim>\<open>History.undo\<close>.\<close>

definition undo :: "world \<Rightarrow> world" where
  "undo s =
     (if length (records s) = 0 then s
      else
        (let r = last (records s);
             s1 = s\<lparr>records := butlast (records s)\<rparr>;
             s2 = s1\<lparr>duringUndo := True\<rparr>;
             s3 = call_revert (snd r) s2
         in s3\<lparr>duringUndo := False\<rparr>))"

text \<open>\<^verbatim>\<open>PlaylistSet.prototype.uniqueTitle\<close>. \<^verbatim>\<open>'Playlist ' + n\<close> appends the decimal digits of \<^verbatim>\<open>n\<close>.\<close>

definition digit :: "nat \<Rightarrow> char" where
  "digit d = ''0123456789'' ! d"

fun string_of_nat :: "nat \<Rightarrow> string" where
  "string_of_nat n =
     (if n < 10 then [digit n] else string_of_nat (n div 10) @ [digit (n mod 10)])"

declare string_of_nat.simps [simp del]

text \<open>The inner loop: is there a playlist in the set with this title?\<close>

fun found_title :: "(ref \<Rightarrow> playlist) \<Rightarrow> ref list \<Rightarrow> string \<Rightarrow> bool" where
  "found_title h [] t = False"
| "found_title h (r # rs) t = (if title (h r) = t then True else found_title h rs t)"

text \<open>The outer loop from \<^verbatim>\<open>n\<close> on; falling out of it returns \<^verbatim>\<open>undefined\<close>, here \<open>None\<close>.\<close>

function uniqueTitle_from :: "nat \<Rightarrow> world \<Rightarrow> string option" where
  "uniqueTitle_from n s =
     (if n < 1000 then
        (let t = ''Playlist '' @ string_of_nat n
         in if \<not> found_title (objs s) (playlists s) t then Some t
            else uniqueTitle_from (n + 1) s)
      else None)"
  by pat_completeness auto
termination
  by (relation "measure (\<lambda>(n, s). 1000 - n)") auto

declare uniqueTitle_from.simps [simp del]

definition uniqueTitle :: "world \<Rightarrow> string option" where
  "uniqueTitle s = uniqueTitle_from 1 s"

section \<open>Start state, user actions, reachable states\<close>

text \<open>The \<^verbatim>\<open>Playlist\<close> constructor.\<close>

definition new_Playlist :: "string \<Rightarrow> playlist" where
  "new_Playlist t =
     \<lparr>title = t, description = [], tracks = [],
      onTitleChange = False, onDescriptionChange = False, onTracksChange = False,
      onAddTrack = False, onDeleteTrack = False, onMoveTrack = False\<rparr>"

text \<open>
  The state after \<^verbatim>\<open>onLoad\<close> with nothing stored: an empty set, an empty
  history. A reference not used yet stands for a playlist as the constructor
  leaves it.
\<close>

definition initial_world :: world where
  "initial_world =
     \<lparr>playlists = [], onChange = False, onDeletePlaylist = False,
      objs = (\<lambda>r. new_Playlist []), records = [], duringUndo = False,
      localStorage = None, trace = []\<rparr>"

text \<open>One call from outside the models: a mutator, or the undo button.\<close>

datatype action =
    Do_addPlaylist ref
  | Do_deletePlaylist ref
  | Do_setTitle ref string
  | Do_setDescription ref string
  | Do_addTrack ref track
  | Do_deleteTrack ref track
  | Do_moveTrack ref int int
  | Do_undo

fun step :: "action \<Rightarrow> world \<Rightarrow> world" where
  "step (Do_addPlaylist p) s = addPlaylist p s"
| "step (Do_deletePlaylist p) s = deletePlaylist p s"
| "step (Do_setTitle p t) s = setTitle p t s"
| "step (Do_setDescription p d) s = setDescription p d s"
| "step (Do_addTrack p t) s = addTrack p t s"
| "step (Do_deleteTrack p t) s = deleteTrack p t s"
| "step (Do_moveTrack p from to) s = moveTrack p from to s"
| "step Do_undo s = undo s"

fun run :: "world \<Rightarrow> action list \<Rightarrow> world" where
  "run s [] = s"
| "run s (a # as) = run (step a s) as"

text \<open>
  A state is reachable when a sequence of such calls leads to it from a state
  in which the history is empty and no undo is running (the playlists
  themselves may have been restored from storage, so they are arbitrary).
\<close>

inductive reachable :: "world \<Rightarrow> bool" where
  start: "records s = [] \<Longrightarrow> \<not> duringUndo s \<Longrightarrow> reachable s"
| after: "reachable s \<Longrightarrow> reachable (step a s)"

text \<open>The data of the models: the sequence of playlists, and each playlist's
  title, description and tracks.\<close>

definition model_data :: "world \<Rightarrow> ref list \<times> (ref \<Rightarrow> playlist_data)" where
  "model_data s = (playlists s, \<lambda>q. pdata (objs s q))"

text \<open>
  Counting along a run: the calls of \<^verbatim>\<open>History.log\<close> that the mutators called
  from outside make (read off the events), and the undos that found a record
  to revert.
\<close>

fun is_log_call :: "event \<Rightarrow> bool" where
  "is_log_call (Log_called d r) = True"
| "is_log_call e = False"

definition log_calls :: "event list \<Rightarrow> nat" where
  "log_calls es = length (filter is_log_call es)"

fun logged_mutations :: "world \<Rightarrow> action list \<Rightarrow> nat" where
  "logged_mutations s [] = 0"
| "logged_mutations s (a # as) =
     (if a = Do_undo then 0 else log_calls (trace (step a s)) - log_calls (trace s))
     + logged_mutations (step a s) as"

fun completed_undos :: "world \<Rightarrow> action list \<Rightarrow> nat" where
  "completed_undos s [] = 0"
| "completed_undos s (a # as) =
     (if a = Do_undo \<and> records s \<noteq> [] then 1 else 0) + completed_undos (step a s) as"

text \<open>A playlist of the set has this title.\<close>

definition title_in_use :: "world \<Rightarrow> string \<Rightarrow> bool" where
  "title_in_use s t = (\<exists>r \<in> set (playlists s). title (objs s r) = t)"

text \<open>
  A small state to try things on: two playlists, the first with two tracks,
  built by calls from the start state.
\<close>

definition demo_world :: world where
  "demo_world =
     run initial_world
       [Do_addPlaylist 0, Do_addPlaylist 1, Do_addTrack 0 (Track 1), Do_addTrack 0 (Track 2)]"

text \<open>
  The same with a view and a player attached: every slot of the set and of the
  first playlist holds a callback.
\<close>

definition watched_world :: world where
  "watched_world =
     (update_playlist 0
        (\<lambda>pl. pl\<lparr>onTitleChange := True, onDescriptionChange := True, onTracksChange := True,
                  onAddTrack := True, onDeleteTrack := True, onMoveTrack := True\<rparr>)
        demo_world)
     \<lparr>onChange := True, onDeletePlaylist := True\<rparr>"

text \<open>The same with four tracks in the first playlist.\<close>

definition four_track_world :: world where
  "four_track_world = run demo_world [Do_addTrack 0 (Track 3), Do_addTrack 0 (Track 4)]"

text \<open>A set with one playlist, titled as in the scenario of the specification.\<close>

definition one_playlist_world :: world where
  "one_playlist_world = run initial_world [Do_addPlaylist 0, Do_setTitle 0 ''Playlist 1'']"

text \<open>A set in which every title the generator can produce is taken.\<close>

definition full_world :: world where
  "full_world =
     initial_world\<lparr>playlists := [1..<1000],
                    objs := (\<lambda>r. new_Playlist (''Playlist '' @ string_of_nat r))\<rparr>"

section \<open>Player\<close>

text \<open>
  The player reads \<^verbatim>\<open>this.playlist.tracks\<close> whenever it runs; the current
  array is the first argument of each operation. Sounds are objects of the
  streaming library, known by identity. \<^verbatim>\<open>SC.stream\<close> answers later, and in any
  order: the requests not yet answered are kept with the callback each was given.
  The calls made on sound objects are kept in order.
\<close>

type_synonym handle = nat

datatype handler = On_play | On_stop

datatype continuation = Then_playSound | Then_set_nextSound

datatype sound_call = Sound_play handle | Sound_stop handle

datatype js_error = TypeError

record player =
  index :: int
  sound :: "handle option"
  nextSound :: "handle option"
  innerHTML :: string
  onclick :: "handler option"
  inflight :: "(nat \<times> continuation) list"
  calls :: "sound_call list"

definition stop :: "player \<Rightarrow> player" where
  "stop p =
     (let p1 = p\<lparr>innerHTML := ''Play'', onclick := Some On_play\<rparr>;
          p2 = (case sound p1 of
                  Some h \<Rightarrow> p1\<lparr>calls := calls p1 @ [Sound_stop h], sound := None, nextSound := None\<rparr>
                | None \<Rightarrow> p1)
      in p2\<lparr>index := - 1\<rparr>)"

text \<open>\<^verbatim>\<open>SC.stream(track.id, callback)\<close>: reading \<^verbatim>\<open>.id\<close> of \<^verbatim>\<open>undefined\<close> throws.\<close>

definition SC_stream :: "track \<Rightarrow> continuation \<Rightarrow> player \<Rightarrow> js_error + player" where
  "SC_stream t c p =
     (case t of
        Undefined \<Rightarrow> Inl TypeError
      | Track k \<Rightarrow> Inr (p\<lparr>inflight := inflight p @ [(k, c)]\<rparr>))"

definition playSound :: "track list \<Rightarrow> handle \<Rightarrow> player \<Rightarrow> js_error + player" where
  "playSound ts h p =
     (let p1 = p\<lparr>sound := Some h\<rparr>;
          p2 = p1\<lparr>calls := calls p1 @ [Sound_play h]\<rparr>;
          p3 = p2\<lparr>nextSound := None\<rparr>
      in if index p3 + 1 < int (length ts)
         then SC_stream (at_index ts (index p3 + 1)) Then_set_nextSound p3
         else Inr p3)"

definition playNextTrack :: "track list \<Rightarrow> player \<Rightarrow> js_error + player" where
  "playNextTrack ts p =
     (let p1 = p\<lparr>index := index p + 1\<rparr>
      in if index p1 \<ge> int (length ts) then Inr (stop (p1\<lparr>sound := None\<rparr>))
         else
           (case nextSound p1 of
              Some h \<Rightarrow> playSound ts h (p1\<lparr>nextSound := None\<rparr>)
            | None \<Rightarrow> SC_stream (at_index ts (index p1)) Then_playSound p1))"

definition play :: "track list \<Rightarrow> player \<Rightarrow> js_error + player" where
  "play ts p =
     playNextTrack ts (p\<lparr>innerHTML := ''Stop'', onclick := Some On_stop, index := - 1, nextSound := None\<rparr>)"

text \<open>The streaming library answers the \<open>n\<close>-th open request with the sound \<open>h\<close>.\<close>

definition stream_arrives :: "nat \<Rightarrow> handle \<Rightarrow> track list \<Rightarrow> player \<Rightarrow> js_error + player" where
  "stream_arrives n h ts p =
     (if n < length (inflight p) then
        (let p1 = p\<lparr>inflight := take n (inflight p) @ drop (Suc n) (inflight p)\<rparr>
         in case snd (inflight p ! n) of
              Then_playSound \<Rightarrow> playSound ts h p1
            | Then_set_nextSound \<Rightarrow> Inr (p1\<lparr>nextSound := Some h\<rparr>))
      else Inr p)"

text \<open>The constructor, up to installing \<^verbatim>\<open>stop\<close> in the playlist's \<^verbatim>\<open>onTracksChange\<close>.\<close>

definition new_Player :: player where
  "new_Player =
     stop \<lparr>index = - 1, sound = None, nextSound = None, innerHTML = [], onclick = None,
           inflight = [], calls = []\<rparr>"

text \<open>The player is idle: nothing is played, nothing is preloaded.\<close>

definition idle :: "player \<Rightarrow> bool" where
  "idle p = (index p = - 1 \<and> sound p = None \<and> nextSound p = None)"

text \<open>
  Player states to try things on, for a playlist of three tracks: the first
  track is playing (as sound 10) and the request for the next one is open; and
  the same after that request was answered with sound 11.
\<close>

definition three_tracks :: "track list" where
  "three_tracks = [Track 1, Track 2, Track 3]"

definition playing_first :: player where
  "playing_first =
     \<lparr>index = 0, sound = Some 10, nextSound = None, innerHTML = ''Stop'',
      onclick = Some On_stop, inflight = [(2, Then_set_nextSound)], calls = [Sound_play 10]\<rparr>"

definition preloaded_second :: player where
  "preloaded_second =
     \<lparr>index = 0, sound = Some 10, nextSound = Some 11, innerHTML = ''Stop'',
      onclick = Some On_stop, inflight = [], calls = [Sound_play 10]\<rparr>"

section \<open>Facts about the array operations\<close>

lemma indexOf_from_notin: "x \<notin> set xs \<Longrightarrow> indexOf_from xs x k = - 1"
  by (induction xs arbitrary: k) auto

lemma indexOf_from_first:
  "x \<notin> set ys \<Longrightarrow> indexOf_from (ys @ x # zs) x k = k + int (length ys)"
  by (induction ys arbitrary: k) auto

lemma indexOf_notin: "x \<notin> set xs \<Longrightarrow> indexOf xs x = - 1"
  by (simp add: indexOf_def indexOf_from_notin)

lemma indexOf_first: "x \<notin> set ys \<Longrightarrow> indexOf (ys @ x # zs) x = int (length ys)"
  by (simp add: indexOf_def indexOf_from_first)

lemma splice_delete_at: "splice (ys @ x # zs) (int (length ys)) 1 [] = ys @ zs"
  by (simp add: splice_def Let_def nat_add_distrib)

lemma splice_delete_last: "splice xs (- 1) 1 [] = butlast xs"
  by (cases xs rule: rev_cases) (simp_all add: splice_def Let_def)

lemma splice_insert_at: "splice (ys @ zs) (int (length ys)) 0 [x] = ys @ x # zs"
  by (simp add: splice_def Let_def)

lemma delete_first: "x \<notin> set ys \<Longrightarrow> splice (ys @ x # zs) (indexOf (ys @ x # zs) x) 1 [] = ys @ zs"
  by (simp add: indexOf_first splice_delete_at)

lemma delete_present: "x \<in> set xs \<Longrightarrow> splice xs (indexOf xs x) 1 [] = remove1 x xs"
proof -
  assume "x \<in> set xs"
  then obtain ys zs where xs: "xs = ys @ x # zs" and n: "x \<notin> set ys"
    by (auto dest: split_list_first)
  show ?thesis unfolding xs using n by (simp add: delete_first remove1_append)
qed

lemma delete_absent: "x \<notin> set xs \<Longrightarrow> splice xs (indexOf xs x) 1 [] = butlast xs"
  by (simp add: indexOf_notin splice_delete_last)

section \<open>The effect of each step on each component of the state\<close>

lemma emit_proj [simp]:
  "playlists (emit e s) = playlists s" "objs (emit e s) = objs s"
  "records (emit e s) = records s" "duringUndo (emit e s) = duringUndo s"
  "localStorage (emit e s) = localStorage s" "onChange (emit e s) = onChange s"
  "onDeletePlaylist (emit e s) = onDeletePlaylist s" "trace (emit e s) = trace s @ [e]"
  by (simp_all add: emit_def)

lemma notify_set_proj [simp]:
  "playlists (notify_set b n s) = playlists s" "objs (notify_set b n s) = objs s"
  "records (notify_set b n s) = records s" "duringUndo (notify_set b n s) = duringUndo s"
  "localStorage (notify_set b n s) = localStorage s" "onChange (notify_set b n s) = onChange s"
  "onDeletePlaylist (notify_set b n s) = onDeletePlaylist s"
  "trace (notify_set b n s) = trace s @ (if b then [Set_notified n (playlists s)] else [])"
  by (simp_all add: notify_set_def)

lemma notify_proj [simp]:
  "playlists (notify p b n s) = playlists s" "objs (notify p b n s) = objs s"
  "records (notify p b n s) = records s" "duringUndo (notify p b n s) = duringUndo s"
  "localStorage (notify p b n s) = localStorage s" "onChange (notify p b n s) = onChange s"
  "onDeletePlaylist (notify p b n s) = onDeletePlaylist s"
  "trace (notify p b n s) = trace s @ (if b then [Playlist_notified p n (pdata (objs s p))] else [])"
  by (simp_all add: notify_def)

lemma update_playlist_proj [simp]:
  "playlists (update_playlist p f s) = playlists s"
  "objs (update_playlist p f s) = (objs s)(p := f (objs s p))"
  "records (update_playlist p f s) = records s" "duringUndo (update_playlist p f s) = duringUndo s"
  "localStorage (update_playlist p f s) = localStorage s" "onChange (update_playlist p f s) = onChange s"
  "onDeletePlaylist (update_playlist p f s) = onDeletePlaylist s"
  "trace (update_playlist p f s) = trace s"
  by (simp_all add: update_playlist_def)

lemma History_log_proj [simp]:
  "playlists (History_log d r s) = playlists s" "objs (History_log d r s) = objs s"
  "records (History_log d r s) = (if duringUndo s then records s else records s @ [(d, r)])"
  "duringUndo (History_log d r s) = duringUndo s"
  "localStorage (History_log d r s) = localStorage s" "onChange (History_log d r s) = onChange s"
  "onDeletePlaylist (History_log d r s) = onDeletePlaylist s"
  "trace (History_log d r s) = trace s @ [Log_called d r]"
  by (simp_all add: History_log_def Let_def)

lemma save_proj [simp]:
  "playlists (save s) = playlists s" "objs (save s) = objs s"
  "records (save s) = records s" "duringUndo (save s) = duringUndo s"
  "localStorage (save s) = Some (snapshot s)"
  "onChange (save s) = onChange s"
  "onDeletePlaylist (save s) = onDeletePlaylist s"
  "trace (save s) = trace s @ [Saved (snapshot s)]"
  by (simp_all add: save_def Let_def)

lemmas mutator_defs = addPlaylist_def deletePlaylist_def setTitle_def setDescription_def
  addTrack_def deleteTrack_def moveTrack_def

lemma mutator_duringUndo [simp]:
  "duringUndo (addPlaylist p s) = duringUndo s"
  "duringUndo (deletePlaylist p s) = duringUndo s"
  "duringUndo (setTitle p t s) = duringUndo s"
  "duringUndo (setDescription p t s) = duringUndo s"
  "duringUndo (addTrack p x s) = duringUndo s"
  "duringUndo (deleteTrack p x s) = duringUndo s"
  "duringUndo (moveTrack p i j s) = duringUndo s"
  by (simp_all add: mutator_defs Let_def)

lemma call_revert_duringUndo [simp]: "duringUndo (call_revert r s) = duringUndo s"
  by (cases r) simp_all

lemma mutator_records_suppressed:
  assumes "duringUndo s"
  shows "records (addPlaylist p s) = records s"
  "records (deletePlaylist p s) = records s"
  "records (setTitle p t s) = records s"
  "records (setDescription p t s) = records s"
  "records (addTrack p x s) = records s"
  "records (deleteTrack p x s) = records s"
  "records (moveTrack p i j s) = records s"
  using assms by (simp_all add: mutator_defs Let_def)

lemma call_revert_records: "duringUndo s \<Longrightarrow> records (call_revert r s) = records s"
  by (cases r) (simp_all add: mutator_records_suppressed)

lemma undo_records: "records (undo s) = butlast (records s)"
  by (simp add: undo_def Let_def call_revert_records)

lemma undo_duringUndo: "\<not> duringUndo s \<Longrightarrow> \<not> duringUndo (undo s)"
  by (simp add: undo_def Let_def)

section \<open>The history stack along a run\<close>

lemma undo_empty: "records s = [] \<Longrightarrow> undo s = s"
  by (simp add: undo_def)

lemma log_calls_append [simp]: "log_calls (xs @ ys) = log_calls xs + log_calls ys"
  by (simp add: log_calls_def)

lemma log_calls_simps [simp]:
  "log_calls [] = 0"
  "log_calls (Log_called d r # es) = Suc (log_calls es)"
  "log_calls (Set_notified n ps # es) = log_calls es"
  "log_calls (Playlist_notified p n pd # es) = log_calls es"
  "log_calls (Saved sn # es) = log_calls es"
  by (simp_all add: log_calls_def)

lemma mutator_depth:
  assumes "\<not> duringUndo s" "a \<noteq> Do_undo"
  shows "length (records (step a s)) =
         length (records s) + (log_calls (trace (step a s)) - log_calls (trace s))"
  using assms by (cases a) (simp_all add: mutator_defs Let_def)

lemma step_duringUndo: "\<not> duringUndo s \<Longrightarrow> \<not> duringUndo (step a s)"
  by (cases a) (simp_all add: undo_duringUndo)

lemma run_depth:
  "\<not> duringUndo s \<Longrightarrow>
   length (records (run s as)) + completed_undos s as =
   length (records s) + logged_mutations s as"
proof (induction as arbitrary: s)
  case Nil
  then show ?case by simp
next
  case (Cons a as)
  have flag: "\<not> duringUndo (step a s)"
    using Cons.prems by (rule step_duringUndo)
  note ih = Cons.IH [OF flag]
  show ?case
  proof (cases "a = Do_undo")
    case True
    then have "length (records (step a s)) = length (records s) - 1"
      by (simp add: undo_records)
    with ih True show ?thesis
      by (cases "records s = []") simp_all
  next
    case False
    with ih mutator_depth [OF Cons.prems False] show ?thesis
      by simp
  qed
qed

section \<open>Removing and inserting by index\<close>

lemma splice_remove_nat:
  "i < length xs \<Longrightarrow> splice xs (int i) 1 [] = take i xs @ drop (Suc i) xs"
  by (simp add: splice_def Let_def nat_add_distrib)

lemma splice_insert_nat:
  "j \<le> length xs \<Longrightarrow> splice xs (int j) 0 [x] = take j xs @ x # drop j xs"
  by (simp add: splice_def Let_def)

lemma at_index_nat: "i < length xs \<Longrightarrow> at_index xs (int i) = xs ! i"
  by (simp add: at_index_def)

lemma move_back_nat:
  assumes i: "i < length xs" and j: "j < length xs"
  defines "r \<equiv> take i xs @ drop (Suc i) xs"
  defines "m \<equiv> take j r @ xs ! i # drop j r"
  shows "length m = length xs" and "m ! j = xs ! i"
    and "take j m @ drop (Suc j) m = r" and "take i r @ xs ! i # drop i r = xs"
proof -
  have lr: "length r = length xs - 1" using i by (simp add: r_def)
  have jr: "j \<le> length r" using j lr by simp
  show "length m = length xs" using jr lr i by (simp add: m_def)
  show "m ! j = xs ! i" using jr by (simp add: m_def nth_append)
  show "take j m @ drop (Suc j) m = r" using jr by (simp add: m_def)
  have "take i r = take i xs" using i by (simp add: r_def)
  moreover have "drop i r = drop (Suc i) xs" using i by (simp add: r_def)
  ultimately show "take i r @ xs ! i # drop i r = xs"
    using i by (simp add: id_take_nth_drop [symmetric])
qed

lemma move_tracks:
  assumes "0 \<le> i" "i < int (length xs)" "0 \<le> j" "j < int (length xs)"
  shows "splice (splice xs i 1 []) j 0 [at_index xs i] =
         take (nat j) (take (nat i) xs @ drop (Suc (nat i)) xs) @ xs ! nat i #
         drop (nat j) (take (nat i) xs @ drop (Suc (nat i)) xs)"
proof -
  obtain a b where ab: "i = int a" "j = int b" "a < length xs" "b < length xs"
    using assms by (metis nat_int nat_less_iff zero_le_imp_eq_int of_nat_less_iff)
  have "b \<le> length (take a xs @ drop (Suc a) xs)" using ab by simp
  then show ?thesis
    using ab by (simp add: splice_remove_nat splice_insert_nat at_index_nat)
qed

lemma move_back:
  assumes "0 \<le> i" "i < int (length xs)" "0 \<le> j" "j < int (length xs)"
  defines "m \<equiv> splice (splice xs i 1 []) j 0 [at_index xs i]"
  shows "splice (splice m j 1 []) i 0 [at_index m j] = xs"
proof -
  obtain a b where ab: "i = int a" "j = int b" "a < length xs" "b < length xs"
    using assms by (metis nat_int nat_less_iff zero_le_imp_eq_int of_nat_less_iff)
  define r where "r = take a xs @ drop (Suc a) xs"
  have lr: "length r = length xs - 1" using ab by (simp add: r_def)
  have m: "m = take b r @ xs ! a # drop b r"
    using ab lr by (simp add: m_def r_def splice_remove_nat splice_insert_nat at_index_nat)
  note mb = move_back_nat [OF ab(3) ab(4), folded r_def, folded m]
  have "splice m j 1 [] = r"
    using mb ab by (simp add: splice_remove_nat)
  moreover have "at_index m j = xs ! a"
    using mb ab by (simp add: at_index_nat)
  moreover have "a \<le> length r" using ab lr by simp
  ultimately show ?thesis
    using mb ab by (simp add: splice_insert_nat)
qed



section \<open>Undo right after a mutator\<close>

lemma undo_setTitle:
  "\<not> duringUndo s \<Longrightarrow>
   playlists (undo (setTitle p t s)) = playlists s \<and> objs (undo (setTitle p t s)) = objs s"
  by (simp add: undo_def Let_def setTitle_def)

lemma undo_setDescription:
  "\<not> duringUndo s \<Longrightarrow>
   playlists (undo (setDescription p d s)) = playlists s \<and>
   objs (undo (setDescription p d s)) = objs s"
  by (simp add: undo_def Let_def setDescription_def)

lemma undo_addTrack:
  "\<not> duringUndo s \<Longrightarrow>
   playlists (undo (addTrack p x s)) = playlists s \<and>
   objs (undo (addTrack p x s)) =
     (objs s)(p := (objs s p)\<lparr>tracks :=
        splice (tracks (objs s p) @ [x]) (indexOf (tracks (objs s p) @ [x]) x) 1 []\<rparr>)"
  by (simp add: undo_def Let_def addTrack_def deleteTrack_def)

lemma undo_deleteTrack:
  "\<not> duringUndo s \<Longrightarrow>
   playlists (undo (deleteTrack p x s)) = playlists s \<and>
   objs (undo (deleteTrack p x s)) =
     (objs s)(p := (objs s p)\<lparr>tracks :=
        splice (tracks (objs s p)) (indexOf (tracks (objs s p)) x) 1 [] @ [x]\<rparr>)"
  by (simp add: undo_def Let_def addTrack_def deleteTrack_def)

lemma undo_moveTrack:
  "\<not> duringUndo s \<Longrightarrow> i \<noteq> j \<Longrightarrow>
   playlists (undo (moveTrack p i j s)) = playlists s \<and>
   objs (undo (moveTrack p i j s)) =
     (objs s)(p := (objs s p)\<lparr>tracks :=
        (let m = splice (splice (tracks (objs s p)) i 1 []) j 0 [at_index (tracks (objs s p)) i]
         in splice (splice m j 1 []) i 0 [at_index m j])\<rparr>)"
  by (simp add: undo_def Let_def moveTrack_def)

lemma undo_addPlaylist:
  "\<not> duringUndo s \<Longrightarrow>
   objs (undo (addPlaylist p s)) = objs s \<and>
   playlists (undo (addPlaylist p s)) =
     splice (playlists s @ [p]) (indexOf (playlists s @ [p]) p) 1 []"
  by (simp add: undo_def Let_def addPlaylist_def deletePlaylist_def)

lemma undo_deletePlaylist:
  "\<not> duringUndo s \<Longrightarrow>
   objs (undo (deletePlaylist p s)) = objs s \<and>
   playlists (undo (deletePlaylist p s)) =
     splice (playlists s) (indexOf (playlists s) p) 1 [] @ [p]"
  by (simp add: undo_def Let_def addPlaylist_def deletePlaylist_def)

lemma reachable_flag: "reachable s \<Longrightarrow> \<not> duringUndo s"
  by (induction rule: reachable.induct) (simp_all add: step_duringUndo)

section \<open>Moving a track onto its own position\<close>

text \<open>
  C10. For every playlist and every index \<open>i\<close>, \<^verbatim>\<open>moveTrack(i, i)\<close> calls the
  \<^verbatim>\<open>onTracksChange\<close> callback if one is installed and returns: the result is the
  state before the call with that one event added. So the tracks are unchanged,
  \<^verbatim>\<open>onMoveTrack\<close> is not called, \<^verbatim>\<open>History.log\<close> is not called, the history is
  unchanged, and nothing is saved.
\<close>

theorem moveTrack_same_index:
  "moveTrack p i i s =
     s\<lparr>trace := trace s @
        (if onTracksChange (objs s p)
         then [Playlist_notified p Call_onTracksChange (pdata (objs s p))] else [])\<rparr>"
  by (simp add: moveTrack_def notify_def emit_def)

section \<open>States to try things on\<close>

lemma reachable_run: "reachable s \<Longrightarrow> reachable (run s as)"
  by (induction as arbitrary: s) (simp_all add: reachable.after)

lemma reachable_initial: "reachable initial_world"
  by (rule reachable.start) (simp_all add: initial_world_def)

lemma reachable_demo: "reachable demo_world"
  unfolding demo_world_def by (rule reachable_run [OF reachable_initial])

lemma demo_world_data:
  "playlists demo_world = [0, 1]"
  "tracks (objs demo_world 0) = [Track 1, Track 2]"
  "records demo_world =
     [(''Add Playlist'', Revert_deletePlaylist 0), (''Add Playlist'', Revert_deletePlaylist 1),
      (''Add Track'', Revert_deleteTrack 0 (Track 1)), (''Add Track'', Revert_deleteTrack 0 (Track 2))]"
  "\<not> duringUndo demo_world"
  by (simp_all add: demo_world_def initial_world_def new_Playlist_def mutator_defs Let_def)

section \<open>What undo does to the history stack\<close>

text \<open>
  C2. \<^verbatim>\<open>History.undo\<close> removes exactly the top record and adds none. On an empty
  stack it returns the state as it is (the model has no error result: nothing
  on that path can throw). In general the stack after an undo is the stack
  before without its last record. No closure that runs while \<^verbatim>\<open>duringUndo\<close> is
  set changes the stack, whichever mutator it calls. From a state where no
  undo is running, undo leaves the flag cleared, and along every run of calls
  the depth of the stack plus the number of undos that found a record equals
  the starting depth plus the number of \<^verbatim>\<open>History.log\<close> calls made by the
  mutators called from outside.
\<close>

theorem undo_stack_effect:
  "(records s = [] \<longrightarrow> undo s = s)
   \<and> records (undo s) = butlast (records s)
   \<and> (duringUndo s' \<longrightarrow> records (call_revert r s') = records s')
   \<and> (\<not> duringUndo s \<longrightarrow>
        \<not> duringUndo (undo s)
        \<and> length (records (run s as)) + completed_undos s as
            = length (records s) + logged_mutations s as)"
  by (simp add: undo_empty undo_records call_revert_records undo_duringUndo run_depth)

theorem undo_stack_effect_witness:
  "records initial_world = [] \<and> \<not> duringUndo initial_world
   \<and> undo initial_world = initial_world
   \<and> duringUndo (demo_world\<lparr>duringUndo := True\<rparr>)
   \<and> records (call_revert (Revert_deleteTrack 0 (Track 2)) (demo_world\<lparr>duringUndo := True\<rparr>))
       = records demo_world
   \<and> logged_mutations initial_world
        [Do_undo, Do_addTrack 0 (Track 1), Do_addTrack 0 (Track 2), Do_moveTrack 0 1 1, Do_undo] = 2
   \<and> completed_undos initial_world
        [Do_undo, Do_addTrack 0 (Track 1), Do_addTrack 0 (Track 2), Do_moveTrack 0 1 1, Do_undo] = 1
   \<and> length (records (run initial_world
        [Do_undo, Do_addTrack 0 (Track 1), Do_addTrack 0 (Track 2), Do_moveTrack 0 1 1, Do_undo])) = 1"
proof -
  let ?as = "[Do_undo, Do_addTrack 0 (Track 1), Do_addTrack 0 (Track 2), Do_moveTrack 0 1 1, Do_undo]"
  have e: "records initial_world = []" and f: "\<not> duringUndo initial_world"
    by (simp_all add: initial_world_def)
  have g: "duringUndo (demo_world\<lparr>duringUndo := True\<rparr>)" by simp
  have l: "logged_mutations initial_world ?as = 2"
    by (simp add: initial_world_def new_Playlist_def mutator_defs Let_def undo_def)
  have c: "completed_undos initial_world ?as = 1"
    by (simp add: initial_world_def new_Playlist_def mutator_defs Let_def undo_def)
  note t = undo_stack_effect [of initial_world "demo_world\<lparr>duringUndo := True\<rparr>"
      "Revert_deleteTrack 0 (Track 2)" ?as]
  from t e have "undo initial_world = initial_world" by blast
  moreover from t g have "records (call_revert (Revert_deleteTrack 0 (Track 2))
      (demo_world\<lparr>duringUndo := True\<rparr>)) = records demo_world" by simp
  moreover from t f have "length (records (run initial_world ?as)) + completed_undos initial_world ?as
      = length (records initial_world) + logged_mutations initial_world ?as" by blast
  ultimately show ?thesis using e f g l c by simp
qed

section \<open>Undo as the inverse of the last mutator\<close>

lemma delete_appended: "x \<notin> set xs \<Longrightarrow> splice (xs @ [x]) (indexOf (xs @ [x]) x) 1 [] = xs"
  using delete_first [of x xs "[]"] by simp

lemma model_data_eqD:
  assumes "model_data a = model_data b"
  shows "playlists a = playlists b" and "tracks (objs a q) = tracks (objs b q)"
    and "title (objs a q) = title (objs b q)" and "description (objs a q) = description (objs b q)"
proof -
  from assms have "pdata (objs a q) = pdata (objs b q)" and "playlists a = playlists b"
    by (auto simp add: model_data_def dest: fun_cong)
  then show "playlists a = playlists b" and "tracks (objs a q) = tracks (objs b q)"
    and "title (objs a q) = title (objs b q)" and "description (objs a q) = description (objs b q)"
    by (simp_all add: pdata_def)
qed

lemma call_revert_trace_irrelevant:
  "playlists (call_revert r (s\<lparr>trace := t\<rparr>)) = playlists (call_revert r s)"
  "objs (call_revert r (s\<lparr>trace := t\<rparr>)) = objs (call_revert r s)"
  by (cases r; simp add: mutator_defs Let_def)+

lemma undo_trace_irrelevant:
  "playlists (undo (s\<lparr>trace := t\<rparr>)) = playlists (undo s)"
  "objs (undo (s\<lparr>trace := t\<rparr>)) = objs (undo s)"
proof -
  have c: "s\<lparr>trace := t, records := R, duringUndo := True\<rparr>
           = (s\<lparr>records := R, duringUndo := True\<rparr>)\<lparr>trace := t\<rparr>" for R
    by simp
  show "playlists (undo (s\<lparr>trace := t\<rparr>)) = playlists (undo s)"
    by (simp add: undo_def Let_def c call_revert_trace_irrelevant del: call_revert.simps)
  show "objs (undo (s\<lparr>trace := t\<rparr>)) = objs (undo s)"
    by (simp add: undo_def Let_def c call_revert_trace_irrelevant del: call_revert.simps)
qed

lemma moveTrack_same:
  "moveTrack p k k s =
     (if onTracksChange (objs s p)
      then s\<lparr>trace := trace s @ [Playlist_notified p Call_onTracksChange (pdata (objs s p))]\<rparr>
      else s)"
  by (simp add: moveTrack_def notify_def emit_def)

lemma undo_after_moveTrack_same:
  "records (moveTrack p k k s) = records s
   \<and> model_data (undo (moveTrack p k k s)) = model_data (undo s)"
  by (simp add: moveTrack_same model_data_def undo_trace_irrelevant)

text \<open>
  C1, as the code has it. From every reachable state, one undo right after a
  mutator call gives back the sequence of playlists and every playlist's title,
  description and tracks as they were before the call, for: \<^verbatim>\<open>setTitle\<close> and
  \<^verbatim>\<open>setDescription\<close> always; \<^verbatim>\<open>addTrack\<close> of a track that is not yet in the
  playlist; \<^verbatim>\<open>moveTrack\<close> between two different positions of the playlist;
  \<^verbatim>\<open>addPlaylist\<close> of a playlist that is not yet in the set. After \<^verbatim>\<open>deleteTrack\<close>
  of a track of the playlist (\<^verbatim>\<open>deletePlaylist\<close> of a playlist of the set) the undo
  gives the sequence without the first occurrence of the deleted entity, with
  the entity added at the end; everything else is as before the call.
  \<^verbatim>\<open>moveTrack(k, k)\<close> logs no record: the history is as before the call, and the
  undo after it does to the data what an undo without the call would have
  done, that is, it reverts the mutation logged before.
\<close>

theorem undo_restores:
  assumes "reachable s"
  shows
  "model_data (undo (setTitle p t s)) = model_data s
   \<and> model_data (undo (setDescription p d s)) = model_data s
   \<and> (x \<notin> set (tracks (objs s p)) \<longrightarrow> model_data (undo (addTrack p x s)) = model_data s)
   \<and> (i \<noteq> j \<and> 0 \<le> i \<and> i < int (length (tracks (objs s p)))
        \<and> 0 \<le> j \<and> j < int (length (tracks (objs s p)))
       \<longrightarrow> model_data (undo (moveTrack p i j s)) = model_data s)
   \<and> (q \<notin> set (playlists s) \<longrightarrow> model_data (undo (addPlaylist q s)) = model_data s)
   \<and> (y \<in> set (tracks (objs s p)) \<longrightarrow>
        model_data (undo (deleteTrack p y s))
        = model_data (update_playlist p (\<lambda>pl. pl\<lparr>tracks := remove1 y (tracks pl) @ [y]\<rparr>) s))
   \<and> (r \<in> set (playlists s) \<longrightarrow>
        model_data (undo (deletePlaylist r s))
        = model_data (s\<lparr>playlists := remove1 r (playlists s) @ [r]\<rparr>))
   \<and> records (moveTrack p k k s) = records s
   \<and> model_data (undo (moveTrack p k k s)) = model_data (undo s)"
proof -
  have f: "\<not> duringUndo s" using assms by (rule reachable_flag)
  have 8: "records (moveTrack p k k s) = records s"
    and 9: "model_data (undo (moveTrack p k k s)) = model_data (undo s)"
    using undo_after_moveTrack_same [of p k s] by simp_all
  have 1: "model_data (undo (setTitle p t s)) = model_data s"
    using undo_setTitle [OF f] by (simp add: model_data_def)
  have 2: "model_data (undo (setDescription p d s)) = model_data s"
    using undo_setDescription [OF f] by (simp add: model_data_def)
  have 3: "model_data (undo (addTrack p x s)) = model_data s" if "x \<notin> set (tracks (objs s p))"
    using undo_addTrack [OF f, of p x] that by (simp add: model_data_def delete_appended)
  have 4: "model_data (undo (moveTrack p i j s)) = model_data s"
    if "i \<noteq> j \<and> 0 \<le> i \<and> i < int (length (tracks (objs s p)))
        \<and> 0 \<le> j \<and> j < int (length (tracks (objs s p)))"
    using undo_moveTrack [OF f, of i j p] that by (simp add: model_data_def move_back Let_def)
  have 5: "model_data (undo (addPlaylist q s)) = model_data s" if "q \<notin> set (playlists s)"
    using undo_addPlaylist [OF f, of q] that by (simp add: model_data_def delete_appended)
  have 6: "model_data (undo (deleteTrack p y s))
        = model_data (update_playlist p (\<lambda>pl. pl\<lparr>tracks := remove1 y (tracks pl) @ [y]\<rparr>) s)"
    if "y \<in> set (tracks (objs s p))"
    using undo_deleteTrack [OF f, of p y] that by (simp add: model_data_def delete_present)
  have 7: "model_data (undo (deletePlaylist r s))
        = model_data (s\<lparr>playlists := remove1 r (playlists s) @ [r]\<rparr>)"
    if "r \<in> set (playlists s)"
    using undo_deletePlaylist [OF f, of r] that by (simp add: model_data_def delete_present)
  show ?thesis
    by (intro conjI impI; (rule 1 2 8 9 | (rule 3 4 5 6 7, assumption)))
qed

text \<open>
  The claim without these conditions fails. \<^verbatim>\<open>moveTrack(1, 1)\<close> logs nothing, so
  the undo after it reverts the call before it: the tracks \<open>[1, 2]\<close> become
  \<open>[1]\<close>. And the undo of adding a track that is already in the playlist
  deletes its first occurrence: \<open>[1, 2]\<close> becomes \<open>[2, 1]\<close>.
\<close>

theorem undo_restores_counterexample:
  "reachable demo_world
   \<and> tracks (objs demo_world 0) = [Track 1, Track 2]
   \<and> tracks (objs (undo (moveTrack 0 1 1 demo_world)) 0) = [Track 1]
   \<and> model_data (undo (moveTrack 0 1 1 demo_world)) \<noteq> model_data demo_world
   \<and> tracks (objs (undo (addTrack 0 (Track 1) demo_world)) 0) = [Track 2, Track 1]
   \<and> model_data (undo (addTrack 0 (Track 1) demo_world)) \<noteq> model_data demo_world"
proof -
  have f: "\<not> duringUndo demo_world" by (rule demo_world_data)
  have m: "tracks (objs (undo (moveTrack 0 1 1 demo_world)) 0) = [Track 1]"
    by (simp add: undo_def moveTrack_def deleteTrack_def Let_def demo_world_data
        splice_def indexOf_def)
  have a: "tracks (objs (undo (addTrack 0 (Track 1) demo_world)) 0) = [Track 2, Track 1]"
    using undo_addTrack [OF f, of 0 "Track 1"]
    by (simp add: demo_world_data splice_def indexOf_def)
  have "model_data (undo (moveTrack 0 1 1 demo_world)) \<noteq> model_data demo_world"
    using m model_data_eqD(2) [of "undo (moveTrack 0 1 1 demo_world)" demo_world 0]
    by (auto simp add: demo_world_data)
  moreover have "model_data (undo (addTrack 0 (Track 1) demo_world)) \<noteq> model_data demo_world"
    using a model_data_eqD(2) [of "undo (addTrack 0 (Track 1) demo_world)" demo_world 0]
    by (auto simp add: demo_world_data)
  ultimately show ?thesis
    using m a reachable_demo by (simp add: demo_world_data)
qed

theorem undo_restores_witness:
  "reachable demo_world
   \<and> Track 3 \<notin> set (tracks (objs demo_world 0))
   \<and> ((0::int) \<noteq> 1 \<and> (0::int) \<le> 0 \<and> 0 < int (length (tracks (objs demo_world 0)))
        \<and> (0::int) \<le> 1 \<and> 1 < int (length (tracks (objs demo_world 0))))
   \<and> 2 \<notin> set (playlists demo_world)
   \<and> Track 1 \<in> set (tracks (objs demo_world 0))
   \<and> 0 \<in> set (playlists demo_world)
   \<and> model_data (undo (setTitle 0 ''Mix'' demo_world)) = model_data demo_world
   \<and> model_data (undo (setDescription 0 ''Notes'' demo_world)) = model_data demo_world
   \<and> model_data (undo (addTrack 0 (Track 3) demo_world)) = model_data demo_world
   \<and> model_data (undo (moveTrack 0 0 1 demo_world)) = model_data demo_world
   \<and> model_data (undo (addPlaylist 2 demo_world)) = model_data demo_world
   \<and> tracks (objs (undo (deleteTrack 0 (Track 1) demo_world)) 0) = [Track 2, Track 1]
   \<and> playlists (undo (deletePlaylist 0 demo_world)) = [1, 0]
   \<and> records (moveTrack 0 1 1 demo_world) = records demo_world
   \<and> model_data (undo (moveTrack 0 1 1 demo_world)) = model_data (undo demo_world)"
proof -
  note t = undo_restores [OF reachable_demo, of 0 "''Mix''" "''Notes''" "Track 3" 0 1 2 "Track 1" 0 1]
  have h: "Track 3 \<notin> set (tracks (objs demo_world 0))"
    "(0::int) \<noteq> 1 \<and> (0::int) \<le> 0 \<and> 0 < int (length (tracks (objs demo_world 0)))
        \<and> (0::int) \<le> 1 \<and> 1 < int (length (tracks (objs demo_world 0)))"
    "2 \<notin> set (playlists demo_world)"
    "Track 1 \<in> set (tracks (objs demo_world 0))"
    "0 \<in> set (playlists demo_world)"
    by (simp_all add: demo_world_data)
  from t h have d: "model_data (undo (deleteTrack 0 (Track 1) demo_world))
        = model_data (update_playlist 0 (\<lambda>pl. pl\<lparr>tracks := remove1 (Track 1) (tracks pl) @ [Track 1]\<rparr>) demo_world)"
    and e: "model_data (undo (deletePlaylist 0 demo_world))
        = model_data (demo_world\<lparr>playlists := remove1 0 (playlists demo_world) @ [0]\<rparr>)"
    by blast+
  have "tracks (objs (undo (deleteTrack 0 (Track 1) demo_world)) 0) = [Track 2, Track 1]"
    using model_data_eqD(2) [OF d, of 0] by (simp add: demo_world_data)
  moreover have "playlists (undo (deletePlaylist 0 demo_world)) = [1, 0]"
    using model_data_eqD(1) [OF e] by (simp add: demo_world_data)
  ultimately show ?thesis
    using t h reachable_demo by blast
qed

section \<open>Moving a track\<close>

lemma moveTrack_tracks:
  "tracks (objs (moveTrack p i j s) p) =
     (if i = j then tracks (objs s p)
      else splice (splice (tracks (objs s p)) i 1 []) j 0 [at_index (tracks (objs s p)) i])"
  by (simp add: moveTrack_def Let_def)

lemma moveTrack_records:
  "\<not> duringUndo s \<Longrightarrow> i \<noteq> j \<Longrightarrow>
   records (moveTrack p i j s) = records s @ [(''Move Track'', Revert_moveTrack p j i)]"
  by (simp add: moveTrack_def Let_def)

lemma move_same_position:
  assumes "0 \<le> i" "i < int (length xs)"
  shows "take (nat i) (take (nat i) xs @ drop (Suc (nat i)) xs) @ xs ! nat i #
         drop (nat i) (take (nat i) xs @ drop (Suc (nat i)) xs) = xs"
proof -
  have "nat i < length xs" using assms by simp
  then show ?thesis by (rule move_back_nat(4) [OF _ \<open>nat i < length xs\<close>])
qed

text \<open>
  C5, as the code has it. From a reachable state, \<^verbatim>\<open>moveTrack(from, to)\<close> with
  both indices inside the track sequence takes the track at index \<open>from\<close> out
  and puts it back at index
  \<open>to\<close>. When the two differ, the record it logs holds the closure that calls
  \<^verbatim>\<open>moveTrack(to, from)\<close>, and one undo gives the tracks back as they were. In
  particular, on the tracks \<open>[a, b, c, d]\<close>, \<^verbatim>\<open>moveTrack(0, 2)\<close> gives
  \<open>[b, c, a, d]\<close> and the undo after it gives \<open>[a, b, c, d]\<close>.
\<close>

theorem moveTrack_effect:
  assumes "reachable s"
  shows
  "(0 \<le> from \<and> from < int (length (tracks (objs s p)))
      \<and> 0 \<le> to \<and> to < int (length (tracks (objs s p))) \<longrightarrow>
      tracks (objs (moveTrack p from to s) p) =
        (let xs = tracks (objs s p);
             rest = take (nat from) xs @ drop (Suc (nat from)) xs
         in take (nat to) rest @ xs ! nat from # drop (nat to) rest)
      \<and> (from \<noteq> to \<longrightarrow>
           last (records (moveTrack p from to s)) = (''Move Track'', Revert_moveTrack p to from)
           \<and> call_revert (Revert_moveTrack p to from) = moveTrack p to from
           \<and> tracks (objs (undo (moveTrack p from to s)) p) = tracks (objs s p)))
   \<and> (tracks (objs s p) = [a, b, c, d] \<longrightarrow>
        tracks (objs (moveTrack p 0 2 s) p) = [b, c, a, d]
        \<and> tracks (objs (undo (moveTrack p 0 2 s)) p) = [a, b, c, d])"
proof -
  have f: "\<not> duringUndo s" using assms by (rule reachable_flag)
  have 1: "tracks (objs (moveTrack p from to s) p) =
        (let xs = tracks (objs s p);
             rest = take (nat from) xs @ drop (Suc (nat from)) xs
         in take (nat to) rest @ xs ! nat from # drop (nat to) rest)"
    if r: "0 \<le> from \<and> from < int (length (tracks (objs s p)))
      \<and> 0 \<le> to \<and> to < int (length (tracks (objs s p)))"
  proof (cases "from = to")
    case True
    with r move_same_position [of "to" "tracks (objs s p)"] show ?thesis
      by (simp add: moveTrack_tracks Let_def)
  next
    case False
    with r move_tracks [of "from" "tracks (objs s p)" "to"] show ?thesis
      by (simp add: moveTrack_tracks Let_def)
  qed
  have 2: "last (records (moveTrack p from to s)) = (''Move Track'', Revert_moveTrack p to from)
           \<and> call_revert (Revert_moveTrack p to from) = moveTrack p to from
           \<and> tracks (objs (undo (moveTrack p from to s)) p) = tracks (objs s p)"
    if r: "0 \<le> from \<and> from < int (length (tracks (objs s p)))
      \<and> 0 \<le> to \<and> to < int (length (tracks (objs s p)))" and n: "from \<noteq> to"
  proof -
    have "tracks (objs (undo (moveTrack p from to s)) p) = tracks (objs s p)"
      using undo_moveTrack [OF f n, of p] r by (simp add: move_back Let_def)
    moreover have "call_revert (Revert_moveTrack p to from) = moveTrack p to from"
      by (rule ext) simp
    ultimately show ?thesis
      using n by (simp add: moveTrack_records [OF f])
  qed
  have 3: "tracks (objs (moveTrack p 0 2 s) p) = [b, c, a, d]
        \<and> tracks (objs (undo (moveTrack p 0 2 s)) p) = [a, b, c, d]"
    if t: "tracks (objs s p) = [a, b, c, d]"
  proof -
    have "tracks (objs (moveTrack p 0 2 s) p) = [b, c, a, d]"
      using t by (simp add: moveTrack_tracks splice_def at_index_def)
    moreover have "tracks (objs (undo (moveTrack p 0 2 s)) p) = [a, b, c, d]"
      using undo_moveTrack [OF f, of 0 2 p] t by (simp add: move_back Let_def)
    ultimately show ?thesis by simp
  qed
  show ?thesis
    using 1 2 3 by blast
qed

lemma reachable_four_track: "reachable four_track_world"
  unfolding four_track_world_def by (rule reachable_run [OF reachable_demo])

lemma four_track_world_tracks: "tracks (objs four_track_world 0) = [Track 1, Track 2, Track 3, Track 4]"
  by (simp add: four_track_world_def addTrack_def Let_def demo_world_data)

theorem moveTrack_effect_witness:
  "reachable four_track_world
   \<and> ((0::int) \<le> 0 \<and> 0 < int (length (tracks (objs four_track_world 0)))
        \<and> (0::int) \<le> 2 \<and> 2 < int (length (tracks (objs four_track_world 0))))
   \<and> (0::int) \<noteq> 2
   \<and> tracks (objs four_track_world 0) = [Track 1, Track 2, Track 3, Track 4]
   \<and> tracks (objs (moveTrack 0 0 2 four_track_world) 0) = [Track 2, Track 3, Track 1, Track 4]
   \<and> last (records (moveTrack 0 0 2 four_track_world)) = (''Move Track'', Revert_moveTrack 0 2 0)
   \<and> tracks (objs (undo (moveTrack 0 0 2 four_track_world)) 0) = [Track 1, Track 2, Track 3, Track 4]"
proof -
  note t = moveTrack_effect [OF reachable_four_track, of 0 0 2 "Track 1" "Track 2" "Track 3" "Track 4"]
  have h: "(0::int) \<le> 0 \<and> 0 < int (length (tracks (objs four_track_world 0)))
        \<and> (0::int) \<le> 2 \<and> 2 < int (length (tracks (objs four_track_world 0)))"
    "(0::int) \<noteq> 2"
    "tracks (objs four_track_world 0) = [Track 1, Track 2, Track 3, Track 4]"
    by (simp_all add: four_track_world_tracks)
  from t h have "last (records (moveTrack 0 0 2 four_track_world)) = (''Move Track'', Revert_moveTrack 0 2 0)"
    by blast
  moreover from t h(3) have "tracks (objs (moveTrack 0 0 2 four_track_world) 0) = [Track 2, Track 3, Track 1, Track 4]
    \<and> tracks (objs (undo (moveTrack 0 0 2 four_track_world)) 0) = [Track 1, Track 2, Track 3, Track 4]"
    by blast
  ultimately show ?thesis
    using h reachable_four_track by blast
qed

text \<open>
  C5 without these conditions fails: \<^verbatim>\<open>moveTrack(1, 1)\<close> logs no inverse, the
  last record is still that of the call before; and \<^verbatim>\<open>moveTrack(5, 0)\<close> on two
  tracks removes nothing and inserts \<^verbatim>\<open>undefined\<close> in front, which the undo then
  moves to the end.
\<close>

theorem moveTrack_effect_counterexample:
  "reachable demo_world
   \<and> tracks (objs demo_world 0) = [Track 1, Track 2]
   \<and> records (moveTrack 0 1 1 demo_world) = records demo_world
   \<and> last (records (moveTrack 0 1 1 demo_world)) = (''Add Track'', Revert_deleteTrack 0 (Track 2))
   \<and> tracks (objs (moveTrack 0 5 0 demo_world) 0) = [Undefined, Track 1, Track 2]
   \<and> tracks (objs (undo (moveTrack 0 5 0 demo_world)) 0) = [Track 1, Track 2, Undefined]"
proof -
  have f: "\<not> duringUndo demo_world" by (rule demo_world_data)
  have r: "records (moveTrack 0 1 1 demo_world) = records demo_world"
    by (simp add: moveTrack_same)
  have o: "tracks (objs (moveTrack 0 5 0 demo_world) 0) = [Undefined, Track 1, Track 2]"
    by (simp add: moveTrack_tracks demo_world_data splice_def at_index_def)
  have u: "tracks (objs (undo (moveTrack 0 5 0 demo_world)) 0) = [Track 1, Track 2, Undefined]"
    using undo_moveTrack [OF f, of 5 0 0]
    by (simp add: demo_world_data splice_def at_index_def Let_def)
  show ?thesis
    using r o u reachable_demo by (simp add: demo_world_data)
qed

section \<open>Undoing a deletion\<close>





section \<open>When the notification callbacks run\<close>

text \<open>
  C3, as the code has it. The events of each mutator call, in order. Every
  callback a mutator calls (if one is installed in the slot) runs inside the
  call. The callbacks
  \<^verbatim>\<open>onChange\<close>, \<^verbatim>\<open>onDeletePlaylist\<close>, \<^verbatim>\<open>onTitleChange\<close>,
  \<^verbatim>\<open>onDescriptionChange\<close>, \<^verbatim>\<open>onAddTrack\<close>, \<^verbatim>\<open>onDeleteTrack\<close> and \<^verbatim>\<open>onMoveTrack\<close>
  run after the mutation (they see the changed data) and before the call of
  \<^verbatim>\<open>History.log\<close>, which comes before the save. The exception is
  \<^verbatim>\<open>onTracksChange\<close>: in \<^verbatim>\<open>addTrack\<close>, \<^verbatim>\<open>deleteTrack\<close> and \<^verbatim>\<open>moveTrack\<close> it runs
  first, and sees the tracks as they were before the call. \<^verbatim>\<open>deletePlaylist\<close>
  calls two callbacks after its mutation, \<^verbatim>\<open>onChange\<close> and then
  \<^verbatim>\<open>onDeletePlaylist\<close>; every other mutator calls one. \<^verbatim>\<open>moveTrack\<close> with equal
  indices stops after \<^verbatim>\<open>onTracksChange\<close>: it calls neither \<^verbatim>\<open>onMoveTrack\<close> nor
  \<^verbatim>\<open>History.log\<close>, and saves nothing.
\<close>

theorem notification_order:
  "trace (addPlaylist p s) =
     trace s
     @ (if onChange s then [Set_notified Call_onChange (playlists s @ [p])] else [])
     @ [Log_called ''Add Playlist'' (Revert_deletePlaylist p), Saved (snapshot (addPlaylist p s))]
   \<and> trace (deletePlaylist p s) =
     trace s
     @ (if onChange s
        then [Set_notified Call_onChange (splice (playlists s) (indexOf (playlists s) p) 1 [])]
        else [])
     @ (if onDeletePlaylist s
        then [Set_notified (Call_onDeletePlaylist p)
                (splice (playlists s) (indexOf (playlists s) p) 1 [])]
        else [])
     @ [Log_called ''Delete Playlist'' (Revert_addPlaylist p), Saved (snapshot (deletePlaylist p s))]
   \<and> trace (setTitle q t s) =
     trace s
     @ (if onTitleChange (objs s q)
        then [Playlist_notified q (Call_onTitleChange t)
                (t, description (objs s q), tracks (objs s q))]
        else [])
     @ [Log_called ''Set Description'' (Revert_setTitle q (title (objs s q))),
        Saved (snapshot (setTitle q t s))]
   \<and> trace (setDescription q d s) =
     trace s
     @ (if onDescriptionChange (objs s q)
        then [Playlist_notified q (Call_onDescriptionChange d)
                (title (objs s q), d, tracks (objs s q))]
        else [])
     @ [Log_called ''Set Description'' (Revert_setDescription q (description (objs s q))),
        Saved (snapshot (setDescription q d s))]
   \<and> trace (addTrack q x s) =
     trace s
     @ (if onTracksChange (objs s q)
        then [Playlist_notified q Call_onTracksChange
                (title (objs s q), description (objs s q), tracks (objs s q))]
        else [])
     @ (if onAddTrack (objs s q)
        then [Playlist_notified q (Call_onAddTrack x)
                (title (objs s q), description (objs s q), tracks (objs s q) @ [x])]
        else [])
     @ [Log_called ''Add Track'' (Revert_deleteTrack q x), Saved (snapshot (addTrack q x s))]
   \<and> trace (deleteTrack q x s) =
     trace s
     @ (if onTracksChange (objs s q)
        then [Playlist_notified q Call_onTracksChange
                (title (objs s q), description (objs s q), tracks (objs s q))]
        else [])
     @ (if onDeleteTrack (objs s q)
        then [Playlist_notified q (Call_onDeleteTrack (indexOf (tracks (objs s q)) x))
                (title (objs s q), description (objs s q),
                 splice (tracks (objs s q)) (indexOf (tracks (objs s q)) x) 1 [])]
        else [])
     @ [Log_called ''Delete Track'' (Revert_addTrack q x), Saved (snapshot (deleteTrack q x s))]
   \<and> trace (moveTrack q i j s) =
     trace s
     @ (if onTracksChange (objs s q)
        then [Playlist_notified q Call_onTracksChange
                (title (objs s q), description (objs s q), tracks (objs s q))]
        else [])
     @ (if i = j then []
        else
          (if onMoveTrack (objs s q)
           then [Playlist_notified q (Call_onMoveTrack i j)
                   (title (objs s q), description (objs s q),
                    splice (splice (tracks (objs s q)) i 1 []) j 0 [at_index (tracks (objs s q)) i])]
           else [])
          @ [Log_called ''Move Track'' (Revert_moveTrack q j i), Saved (snapshot (moveTrack q i j s))])"
  by (intro conjI; simp add: mutator_defs Let_def snapshot_def pdata_def)

lemma watched_world_data:
  "playlists watched_world = [0, 1]"
  "tracks (objs watched_world 0) = [Track 1, Track 2]"
  "title (objs watched_world 0) = []" "description (objs watched_world 0) = []"
  "onMoveTrack (objs watched_world 0)" "onTracksChange (objs watched_world 0)"
  "onChange watched_world" "onDeletePlaylist watched_world"
  by (simp_all add: watched_world_def demo_world_data)
    (simp_all add: demo_world_def initial_world_def new_Playlist_def mutator_defs Let_def)

text \<open>
  C3 as it was worded fails in two places, shown on a state in which every
  slot holds a callback: \<^verbatim>\<open>moveTrack(1, 1)\<close> calls \<^verbatim>\<open>onTracksChange\<close> and nothing
  else, although \<^verbatim>\<open>onMoveTrack\<close> is installed; and \<^verbatim>\<open>deletePlaylist\<close> calls two
  callbacks, not one, before \<^verbatim>\<open>History.log\<close>.
\<close>

theorem notification_order_counterexample:
  "onTracksChange (objs watched_world 0) \<and> onMoveTrack (objs watched_world 0)
   \<and> trace (moveTrack 0 1 1 watched_world) =
       trace watched_world
       @ [Playlist_notified 0 Call_onTracksChange ([], [], [Track 1, Track 2])]
   \<and> tracks (objs (moveTrack 0 1 1 watched_world) 0) = tracks (objs watched_world 0)
   \<and> onChange watched_world \<and> onDeletePlaylist watched_world
   \<and> take 3 (drop (length (trace watched_world)) (trace (deletePlaylist 1 watched_world))) =
       [Set_notified Call_onChange [0], Set_notified (Call_onDeletePlaylist 1) [0],
        Log_called ''Delete Playlist'' (Revert_addPlaylist 1)]"
proof -
  have m: "trace (moveTrack 0 1 1 watched_world) =
       trace watched_world
       @ [Playlist_notified 0 Call_onTracksChange ([], [], [Track 1, Track 2])]"
    by (simp add: moveTrack_same watched_world_data pdata_def)
  have t: "tracks (objs (moveTrack 0 1 1 watched_world) 0) = tracks (objs watched_world 0)"
    by (simp add: moveTrack_same)
  have d: "take 3 (drop (length (trace watched_world)) (trace (deletePlaylist 1 watched_world))) =
       [Set_notified Call_onChange [0], Set_notified (Call_onDeletePlaylist 1) [0],
        Log_called ''Delete Playlist'' (Revert_addPlaylist 1)]"
    by (simp add: deletePlaylist_def Let_def watched_world_data splice_def indexOf_def)
  show ?thesis
    using m t d by (simp add: watched_world_data)
qed

section \<open>Deleting what is not there\<close>

lemma deleteTrack_absent:
  "x \<notin> set (tracks (objs s p)) \<Longrightarrow>
   tracks (objs (deleteTrack p x s) p) = butlast (tracks (objs s p))"
  by (simp add: deleteTrack_def Let_def delete_absent)

lemma deletePlaylist_absent:
  "p \<notin> set (playlists s) \<Longrightarrow> playlists (deletePlaylist p s) = butlast (playlists s)"
  by (simp add: deletePlaylist_def Let_def delete_absent)

text \<open>
  C4 does not hold of the code. \<^verbatim>\<open>indexOf\<close> answers -1 for a track that is
  not in the playlist, and \<^verbatim>\<open>splice(-1, 1)\<close> removes the last element: deleting
  track 9 from the tracks \<open>[1, 2]\<close> leaves \<open>[1]\<close>, and deleting a playlist
  that is not in the set \<open>[0, 1]\<close> leaves \<open>[0]\<close>.
\<close>

theorem delete_absent_removes_last:
  "Track 9 \<notin> set (tracks (objs demo_world 0))
   \<and> tracks (objs demo_world 0) = [Track 1, Track 2]
   \<and> tracks (objs (deleteTrack 0 (Track 9) demo_world) 0) = [Track 1]
   \<and> 7 \<notin> set (playlists demo_world)
   \<and> playlists demo_world = [0, 1]
   \<and> playlists (deletePlaylist 7 demo_world) = [0]"
proof -
  have t: "Track 9 \<notin> set (tracks (objs demo_world 0))"
    and p: "7 \<notin> set (playlists demo_world)"
    by (simp_all add: demo_world_data)
  show ?thesis
    using t p deleteTrack_absent [OF t] deletePlaylist_absent [OF p]
    by (simp add: demo_world_data)
qed

section \<open>A title no playlist has\<close>

lemma found_title_iff: "found_title h rs t \<longleftrightarrow> (\<exists>r \<in> set rs. title (h r) = t)"
  by (induction rs) auto

lemma found_title_in_use: "found_title (objs s) (playlists s) t = title_in_use s t"
  by (simp add: found_title_iff title_in_use_def)

lemma uniqueTitle_from_none:
  "(\<And>N. n \<le> N \<Longrightarrow> N < 1000 \<Longrightarrow> title_in_use s (''Playlist '' @ string_of_nat N))
   \<Longrightarrow> uniqueTitle_from n s = None"
proof (induction n s rule: uniqueTitle_from.induct)
  case (1 n s)
  show ?case
  proof (cases "n < 1000")
    case True
    have used: "title_in_use s (''Playlist '' @ string_of_nat n)"
      using "1.prems" [of n] True by simp
    have f: "\<not> \<not> found_title (objs s) (playlists s) (''Playlist '' @ string_of_nat n)"
      using used by (simp add: found_title_in_use)
    have "uniqueTitle_from (n + 1) s = None"
    proof (rule "1.IH" [OF True refl f])
      fix N assume "n + 1 \<le> N" "N < 1000"
      then show "title_in_use s (''Playlist '' @ string_of_nat N)"
        using "1.prems" [of N] by simp
    qed
    then show ?thesis
      using True used by (subst uniqueTitle_from.simps) (simp add: found_title_in_use)
  next
    case False
    then show ?thesis by (subst uniqueTitle_from.simps) simp
  qed
qed

lemma uniqueTitle_from_first:
  "n \<le> N \<Longrightarrow> N < 1000 \<Longrightarrow> \<not> title_in_use s (''Playlist '' @ string_of_nat N)
   \<Longrightarrow> (\<And>M. n \<le> M \<Longrightarrow> M < N \<Longrightarrow> title_in_use s (''Playlist '' @ string_of_nat M))
   \<Longrightarrow> uniqueTitle_from n s = Some (''Playlist '' @ string_of_nat N)"
proof (induction n s rule: uniqueTitle_from.induct)
  case (1 n s)
  show ?case
  proof (cases "n = N")
    case True
    then show ?thesis
      using "1.prems"(2,3) by (subst uniqueTitle_from.simps) (simp add: found_title_in_use)
  next
    case False
    then have lt: "n < N" using "1.prems"(1) by simp
    have used: "title_in_use s (''Playlist '' @ string_of_nat n)"
      using "1.prems"(4) [of n] lt by simp
    have small: "n < 1000" using lt "1.prems"(2) by simp
    have f: "\<not> \<not> found_title (objs s) (playlists s) (''Playlist '' @ string_of_nat n)"
      using used by (simp add: found_title_in_use)
    have "uniqueTitle_from (n + 1) s = Some (''Playlist '' @ string_of_nat N)"
    proof (rule "1.IH" [OF small refl f])
      show "n + 1 \<le> N" using lt by simp
      show "N < 1000" by (rule "1.prems"(2))
      show "\<not> title_in_use s (''Playlist '' @ string_of_nat N)" by (rule "1.prems"(3))
      fix M assume "n + 1 \<le> M" "M < N"
      then show "title_in_use s (''Playlist '' @ string_of_nat M)"
        using "1.prems"(4) [of M] by simp
    qed
    then show ?thesis
      using small used by (subst uniqueTitle_from.simps) (simp add: found_title_in_use)
  qed
qed

lemma string_of_digit: "n < 10 \<Longrightarrow> string_of_nat n = [digit n]"
  by (subst string_of_nat.simps) simp

text \<open>
  C7. \<^verbatim>\<open>uniqueTitle\<close> returns \<^verbatim>\<open>"Playlist N"\<close> for the smallest \<open>N\<close> from 1 up
  to 999 such that no playlist of the set has that title: if \<open>N\<close> is in that
  range, its title is free and the titles of all smaller numbers from 1 on are
  taken, then the result is the title of \<open>N\<close>. If the titles of all numbers
  from 1 to 999 are taken, it returns nothing (\<^verbatim>\<open>undefined\<close>). For a set whose only
  playlist is titled \<^verbatim>\<open>"Playlist 1"\<close> the result is \<^verbatim>\<open>"Playlist 2"\<close>.
\<close>

theorem uniqueTitle_smallest_unused:
  "(1 \<le> N \<and> N < 1000 \<and> \<not> title_in_use s (''Playlist '' @ string_of_nat N)
      \<and> (\<forall>M. 1 \<le> M \<and> M < N \<longrightarrow> title_in_use s (''Playlist '' @ string_of_nat M))
    \<longrightarrow> uniqueTitle s = Some (''Playlist '' @ string_of_nat N))
   \<and> ((\<forall>M. 1 \<le> M \<and> M < 1000 \<longrightarrow> title_in_use s (''Playlist '' @ string_of_nat M))
    \<longrightarrow> uniqueTitle s = None)
   \<and> (playlists s = [p] \<and> title (objs s p) = ''Playlist 1''
    \<longrightarrow> uniqueTitle s = Some ''Playlist 2'')"
proof -
  have 1: "uniqueTitle s = Some (''Playlist '' @ string_of_nat N)"
    if "1 \<le> N \<and> N < 1000 \<and> \<not> title_in_use s (''Playlist '' @ string_of_nat N)
      \<and> (\<forall>M. 1 \<le> M \<and> M < N \<longrightarrow> title_in_use s (''Playlist '' @ string_of_nat M))"
    unfolding uniqueTitle_def using that by (intro uniqueTitle_from_first) simp_all
  have 2: "uniqueTitle s = None"
    if "\<forall>M. 1 \<le> M \<and> M < 1000 \<longrightarrow> title_in_use s (''Playlist '' @ string_of_nat M)"
    unfolding uniqueTitle_def using that by (intro uniqueTitle_from_none) simp_all
  have 3: "uniqueTitle s = Some ''Playlist 2''"
    if one: "playlists s = [p] \<and> title (objs s p) = ''Playlist 1''"
  proof -
    have u: "title_in_use s t \<longleftrightarrow> t = ''Playlist 1''" for t
      using one by (auto simp add: title_in_use_def)
    have "uniqueTitle_from 1 s = Some (''Playlist '' @ string_of_nat 2)"
    proof (rule uniqueTitle_from_first)
      show "\<not> title_in_use s (''Playlist '' @ string_of_nat 2)"
        by (simp add: u string_of_digit digit_def)
      show "title_in_use s (''Playlist '' @ string_of_nat M)" if "1 \<le> M" "M < 2" for M
      proof -
        from that have "M = 1" by simp
        then show ?thesis by (simp add: u string_of_digit digit_def)
      qed
    qed simp_all
    then show ?thesis
      by (simp add: uniqueTitle_def string_of_digit digit_def)
  qed
  show ?thesis
    using 1 2 3 by blast
qed

lemma one_playlist_world_data:
  "playlists one_playlist_world = [0]" "title (objs one_playlist_world 0) = ''Playlist 1''"
  by (simp_all add: one_playlist_world_def initial_world_def addPlaylist_def setTitle_def Let_def)

lemma full_world_in_use:
  "1 \<le> M \<Longrightarrow> M < 1000 \<Longrightarrow> title_in_use full_world (''Playlist '' @ string_of_nat M)"
  by (auto simp add: title_in_use_def full_world_def new_Playlist_def)

theorem uniqueTitle_smallest_unused_witness:
  "playlists one_playlist_world = [0]
   \<and> title (objs one_playlist_world 0) = ''Playlist 1''
   \<and> title_in_use one_playlist_world (''Playlist '' @ string_of_nat 1)
   \<and> \<not> title_in_use one_playlist_world (''Playlist '' @ string_of_nat 2)
   \<and> uniqueTitle one_playlist_world = Some ''Playlist 2''
   \<and> \<not> (\<exists>M. 1 \<le> M \<and> M < 1000 \<and> \<not> title_in_use full_world (''Playlist '' @ string_of_nat M))
   \<and> uniqueTitle full_world = None"
proof -
  have u: "title_in_use one_playlist_world t \<longleftrightarrow> t = ''Playlist 1''" for t
    by (auto simp add: title_in_use_def one_playlist_world_data)
  have a: "title_in_use one_playlist_world (''Playlist '' @ string_of_nat 1)"
    and b: "\<not> title_in_use one_playlist_world (''Playlist '' @ string_of_nat 2)"
    by (simp_all add: u string_of_digit digit_def)
  have c: "\<forall>M. 1 \<le> M \<and> M < 2 \<longrightarrow> title_in_use one_playlist_world (''Playlist '' @ string_of_nat M)"
  proof (intro allI impI)
    fix M :: nat assume "1 \<le> M \<and> M < 2"
    then have "M = 1" by simp
    with a show "title_in_use one_playlist_world (''Playlist '' @ string_of_nat M)" by simp
  qed
  have d: "\<forall>M. 1 \<le> M \<and> M < 1000 \<longrightarrow> title_in_use full_world (''Playlist '' @ string_of_nat M)"
    using full_world_in_use by blast
  note t1 = uniqueTitle_smallest_unused [of 2 one_playlist_world 0]
  note t2 = uniqueTitle_smallest_unused [of 2 full_world 0]
  from t1 b c have "uniqueTitle one_playlist_world = Some (''Playlist '' @ string_of_nat 2)"
    by simp
  moreover from t1 have "uniqueTitle one_playlist_world = Some ''Playlist 2''"
    by (simp add: one_playlist_world_data)
  moreover from t2 d have "uniqueTitle full_world = None"
    by blast
  ultimately show ?thesis
    using a b d by (simp add: one_playlist_world_data)
qed

section \<open>The player\<close>

lemma stop_proj:
  "index (stop p) = - 1"
  "sound (stop p) = None"
  "nextSound (stop p) = (case sound p of Some h \<Rightarrow> None | None \<Rightarrow> nextSound p)"
  "innerHTML (stop p) = ''Play''"
  "onclick (stop p) = Some On_play"
  "inflight (stop p) = inflight p"
  "calls (stop p) = calls p @ (case sound p of Some h \<Rightarrow> [Sound_stop h] | None \<Rightarrow> [])"
  by (simp_all add: stop_def Let_def split: option.splits)

lemma playSound_result:
  assumes "index p + 1 < int (length ts) \<longrightarrow> at_index ts (index p + 1) = Track k"
  shows "\<exists>q. playSound ts h p = Inr q \<and> index q = index p \<and> sound q = Some h
           \<and> nextSound q = None \<and> calls q = calls p @ [Sound_play h]
           \<and> innerHTML q = innerHTML p \<and> onclick q = onclick p
           \<and> inflight q = inflight p
                @ (if index p + 1 < int (length ts) then [(k, Then_set_nextSound)] else [])"
  using assms by (simp add: playSound_def SC_stream_def Let_def)

text \<open>
  C9. \<^verbatim>\<open>play()\<close> on a playlist without tracks ends idle (index -1, no current
  sound, no preloaded sound) with the button back on \<^verbatim>\<open>Play\<close>; no stream was
  requested and no sound was started, since the open requests and the calls on
  sounds are as before. \<^verbatim>\<open>stop()\<close> on an idle player leaves index, current sound
  and preloaded sound as they are, and calls no sound.
\<close>

theorem player_idle_cases:
  "(\<exists>q. play [] p = Inr q \<and> idle q \<and> inflight q = inflight p \<and> calls q = calls p
         \<and> innerHTML q = ''Play'' \<and> onclick q = Some On_play)
   \<and> (idle p \<longrightarrow>
        index (stop p) = index p \<and> sound (stop p) = sound p \<and> nextSound (stop p) = nextSound p
        \<and> inflight (stop p) = inflight p \<and> calls (stop p) = calls p)"
  by (simp add: play_def playNextTrack_def Let_def idle_def stop_proj)

theorem player_idle_cases_witness:
  "idle new_Player
   \<and> play [] new_Player = Inr new_Player
   \<and> index (stop new_Player) = - 1 \<and> sound (stop new_Player) = None
   \<and> nextSound (stop new_Player) = None
   \<and> calls (stop new_Player) = [] \<and> inflight (stop new_Player) = []"
proof -
  have i: "idle new_Player"
    by (simp add: idle_def new_Player_def stop_proj)
  have v: "index new_Player = - 1" "sound new_Player = None" "nextSound new_Player = None"
    "calls new_Player = []" "inflight new_Player = []"
    by (simp_all add: new_Player_def stop_proj)
  have e: "play [] new_Player = Inr new_Player"
    by (simp add: play_def playNextTrack_def Let_def new_Player_def stop_def)
  from player_idle_cases [of new_Player] i
  have "index (stop new_Player) = index new_Player \<and> sound (stop new_Player) = sound new_Player
        \<and> nextSound (stop new_Player) = nextSound new_Player
        \<and> inflight (stop new_Player) = inflight new_Player \<and> calls (stop new_Player) = calls new_Player"
    by blast
  then show ?thesis
    using i e v by simp
qed

text \<open>
  C8. What happens when the sound that is playing finishes, that is, when
  \<^verbatim>\<open>playNextTrack\<close> runs as its \<^verbatim>\<open>onfinish\<close> callback, with \<open>index p\<close> the index of
  the track that was playing. If the next index is past the end, the index is
  advanced and the player stops: it ends with index -1, no sound, the button
  on \<^verbatim>\<open>Play\<close>. Otherwise the index becomes the next index and, if a preloaded
  sound is there, that sound is played at once and the preload slot is empty
  afterwards; if none is there, a stream for the track at the next index is
  requested and, when it arrives, it is played, with nothing else needed. In
  both cases starting the sound also requests the track after it, if there is one.
\<close>

theorem chained_advance:
  "(int (length ts) \<le> index p + 1 \<longrightarrow>
      playNextTrack ts p = Inr (stop (p\<lparr>index := index p + 1, sound := None\<rparr>))
      \<and> (\<exists>q. playNextTrack ts p = Inr q \<and> index q = - 1 \<and> sound q = None
             \<and> innerHTML q = ''Play'' \<and> onclick q = Some On_play
             \<and> calls q = calls p \<and> inflight q = inflight p))
   \<and> (index p + 1 < int (length ts) \<and> nextSound p = Some h
        \<and> (index p + 2 < int (length ts) \<longrightarrow> at_index ts (index p + 2) = Track k2) \<longrightarrow>
      (\<exists>q. playNextTrack ts p = Inr q \<and> index q = index p + 1 \<and> sound q = Some h
           \<and> nextSound q = None \<and> calls q = calls p @ [Sound_play h]
           \<and> inflight q = inflight p
                @ (if index p + 2 < int (length ts) then [(k2, Then_set_nextSound)] else [])))
   \<and> (index p + 1 < int (length ts) \<and> nextSound p = None
        \<and> at_index ts (index p + 1) = Track k
        \<and> (index p + 2 < int (length ts) \<longrightarrow> at_index ts (index p + 2) = Track k2) \<longrightarrow>
      (\<exists>q. playNextTrack ts p = Inr q \<and> index q = index p + 1 \<and> sound q = sound p
           \<and> nextSound q = None \<and> calls q = calls p
           \<and> inflight q = inflight p @ [(k, Then_playSound)]
           \<and> (\<exists>r. stream_arrives (length (inflight p)) h' ts q = Inr r
                  \<and> index r = index p + 1 \<and> sound r = Some h' \<and> nextSound r = None
                  \<and> calls r = calls p @ [Sound_play h']
                  \<and> inflight r = inflight p
                       @ (if index p + 2 < int (length ts) then [(k2, Then_set_nextSound)] else []))))"
proof (intro conjI impI)
  assume "int (length ts) \<le> index p + 1"
  then show "playNextTrack ts p = Inr (stop (p\<lparr>index := index p + 1, sound := None\<rparr>))"
    by (simp add: playNextTrack_def Let_def)
  then show "\<exists>q. playNextTrack ts p = Inr q \<and> index q = - 1 \<and> sound q = None
             \<and> innerHTML q = ''Play'' \<and> onclick q = Some On_play
             \<and> calls q = calls p \<and> inflight q = inflight p"
    by (simp add: stop_proj)
next
  assume a: "index p + 1 < int (length ts) \<and> nextSound p = Some h
        \<and> (index p + 2 < int (length ts) \<longrightarrow> at_index ts (index p + 2) = Track k2)"
  let ?p1 = "p\<lparr>index := index p + 1, nextSound := None\<rparr>"
  have n: "playNextTrack ts p = playSound ts h ?p1"
    using a by (simp add: playNextTrack_def Let_def)
  have "index ?p1 + 1 < int (length ts) \<longrightarrow> at_index ts (index ?p1 + 1) = Track k2"
    using a by (simp add: add.assoc)
  from playSound_result [OF this, of h] n
  show "\<exists>q. playNextTrack ts p = Inr q \<and> index q = index p + 1 \<and> sound q = Some h
           \<and> nextSound q = None \<and> calls q = calls p @ [Sound_play h]
           \<and> inflight q = inflight p
                @ (if index p + 2 < int (length ts) then [(k2, Then_set_nextSound)] else [])"
    by (auto simp add: add.assoc)
next
  assume a: "index p + 1 < int (length ts) \<and> nextSound p = None
        \<and> at_index ts (index p + 1) = Track k
        \<and> (index p + 2 < int (length ts) \<longrightarrow> at_index ts (index p + 2) = Track k2)"
  let ?q = "p\<lparr>index := index p + 1, inflight := inflight p @ [(k, Then_playSound)]\<rparr>"
  let ?q1 = "p\<lparr>index := index p + 1\<rparr>"
  have n: "playNextTrack ts p = Inr ?q"
    using a by (simp add: playNextTrack_def SC_stream_def Let_def)
  have s: "stream_arrives (length (inflight p)) h' ts ?q = playSound ts h' ?q1"
    by (simp add: stream_arrives_def Let_def)
  have "index ?q1 + 1 < int (length ts) \<longrightarrow> at_index ts (index ?q1 + 1) = Track k2"
    using a by (simp add: add.assoc)
  from playSound_result [OF this, of h'] s
  have "\<exists>r. stream_arrives (length (inflight p)) h' ts ?q = Inr r
                  \<and> index r = index p + 1 \<and> sound r = Some h' \<and> nextSound r = None
                  \<and> calls r = calls p @ [Sound_play h']
                  \<and> inflight r = inflight p
                       @ (if index p + 2 < int (length ts) then [(k2, Then_set_nextSound)] else [])"
    by (auto simp add: add.assoc)
  with n a show "\<exists>q. playNextTrack ts p = Inr q \<and> index q = index p + 1 \<and> sound q = sound p
           \<and> nextSound q = None \<and> calls q = calls p
           \<and> inflight q = inflight p @ [(k, Then_playSound)]
           \<and> (\<exists>r. stream_arrives (length (inflight p)) h' ts q = Inr r
                  \<and> index r = index p + 1 \<and> sound r = Some h' \<and> nextSound r = None
                  \<and> calls r = calls p @ [Sound_play h']
                  \<and> inflight r = inflight p
                       @ (if index p + 2 < int (length ts) then [(k2, Then_set_nextSound)] else []))"
    by simp
qed

lemma playing_first_reached:
  "\<exists>q. play three_tracks new_Player = Inr q \<and> stream_arrives 0 10 three_tracks q = Inr playing_first"
  by (simp add: play_def playNextTrack_def playSound_def SC_stream_def stream_arrives_def Let_def
      new_Player_def stop_def three_tracks_def at_index_def playing_first_def)

lemma preloaded_second_reached:
  "stream_arrives 0 11 three_tracks playing_first = Inr preloaded_second"
  by (simp add: stream_arrives_def Let_def playing_first_def preloaded_second_def)

theorem chained_advance_witness:
  "int (length [Track 1]) \<le> index playing_first + 1
   \<and> (\<exists>q. playNextTrack [Track 1] playing_first = Inr q \<and> index q = - 1 \<and> sound q = None
          \<and> innerHTML q = ''Play'' \<and> calls q = [Sound_play 10])
   \<and> index preloaded_second + 1 < int (length three_tracks)
   \<and> nextSound preloaded_second = Some 11
   \<and> at_index three_tracks (index preloaded_second + 2) = Track 3
   \<and> (\<exists>q. playNextTrack three_tracks preloaded_second = Inr q \<and> index q = 1 \<and> sound q = Some 11
          \<and> nextSound q = None \<and> calls q = [Sound_play 10, Sound_play 11]
          \<and> inflight q = [(3, Then_set_nextSound)])
   \<and> index playing_first + 1 < int (length three_tracks)
   \<and> nextSound playing_first = None
   \<and> at_index three_tracks (index playing_first + 1) = Track 2
   \<and> at_index three_tracks (index playing_first + 2) = Track 3
   \<and> (\<exists>q. playNextTrack three_tracks playing_first = Inr q \<and> index q = 1
          \<and> calls q = [Sound_play 10]
          \<and> inflight q = [(2, Then_set_nextSound), (2, Then_playSound)]
          \<and> (\<exists>r. stream_arrives 1 12 three_tracks q = Inr r
                 \<and> index r = 1 \<and> sound r = Some 12 \<and> nextSound r = None
                 \<and> calls r = [Sound_play 10, Sound_play 12]
                 \<and> inflight r = [(2, Then_set_nextSound), (3, Then_set_nextSound)]))"
proof -
  have h1: "int (length [Track 1]) \<le> index playing_first + 1"
    by (simp add: playing_first_def)
  have h2: "index preloaded_second + 1 < int (length three_tracks)"
    "nextSound preloaded_second = Some 11"
    "at_index three_tracks (index preloaded_second + 2) = Track 3"
    by (simp_all add: preloaded_second_def three_tracks_def at_index_def)
  have h3: "index playing_first + 1 < int (length three_tracks)"
    "nextSound playing_first = None"
    "at_index three_tracks (index playing_first + 1) = Track 2"
    "at_index three_tracks (index playing_first + 2) = Track 3"
    by (simp_all add: playing_first_def three_tracks_def at_index_def)
  have c1: "\<exists>q. playNextTrack [Track 1] playing_first = Inr q \<and> index q = - 1 \<and> sound q = None
          \<and> innerHTML q = ''Play'' \<and> calls q = [Sound_play 10]"
    using chained_advance [of "[Track 1]" playing_first] h1
    by (auto simp add: playing_first_def)
  have c2: "\<exists>q. playNextTrack three_tracks preloaded_second = Inr q \<and> index q = 1 \<and> sound q = Some 11
          \<and> nextSound q = None \<and> calls q = [Sound_play 10, Sound_play 11]
          \<and> inflight q = [(3, Then_set_nextSound)]"
    using chained_advance [of three_tracks preloaded_second 11 3] h2
    by (auto simp add: preloaded_second_def three_tracks_def)
  have c3: "\<exists>q. playNextTrack three_tracks playing_first = Inr q \<and> index q = 1
          \<and> calls q = [Sound_play 10]
          \<and> inflight q = [(2, Then_set_nextSound), (2, Then_playSound)]
          \<and> (\<exists>r. stream_arrives 1 12 three_tracks q = Inr r
                 \<and> index r = 1 \<and> sound r = Some 12 \<and> nextSound r = None
                 \<and> calls r = [Sound_play 10, Sound_play 12]
                 \<and> inflight r = [(2, Then_set_nextSound), (3, Then_set_nextSound)])"
    using chained_advance [of three_tracks playing_first _ 3 2 12] h3
    by (auto simp add: playing_first_def three_tracks_def)
  show ?thesis
    using h1 h2 h3 c1 c2 c3 by (intro conjI)
qed

end
